theory Spec2Isabelle
  imports Complex_Main "HOL-Library.Word"
begin

section \<open>Shared data: bytes, errors, outcomes\<close>

text \<open>
  Go byte slices are lists of 8-bit words; Go strings are \<open>string\<close>. The machine
  integers \<open>uint\<close>, \<open>int\<close>, \<open>int64\<close> and \<open>uint64\<close> are 64-bit words (a 64-bit platform):
  addition and subtraction wrap, and a conversion between the signed and the unsigned type
  keeps the bits.

  A Go function returning \<open>(T, error)\<close> has three outcomes here: the value, the
  error, or a run-time panic (nil dereference, index out of range, failed type assertion).
  An error that a library hands back is a \<open>goerror\<close>, its message.
\<close>

type_synonym byte = "8 word"
type_synonym bytes = "byte list"
type_synonym goerror = string

datatype panic = NilDereference | IndexOutOfRange | TypeAssertion

datatype error =
    GetChunkError "64 word" "64 word"
      \<comment> \<open>"error while getting genesis chunk %d out of %d", id, res.TotalChunks\<close>
  | DecodeChunkError "64 word" "64 word"
      \<comment> \<open>"error while decoding genesis chunk %d out of %d", id, res.TotalChunks\<close>
  | DecodeDisclosureError goerror
      \<comment> \<open>"failed to decode disclosure: %w"\<close>
  | UnmarshalDisclosureError goerror
      \<comment> \<open>"failed to unmarshal disclosure array: %w"\<close>
  | StatusCodeError int
      \<comment> \<open>"request failed with status code: %d"\<close>
  | ReadBodyError
      \<comment> \<open>"error reading response body"\<close>
  | ConvertTxError goerror
      \<comment> \<open>"error converting transaction: %s"\<close>
  | LibError goerror
      \<comment> \<open>an error of a library call returned as it came\<close>

datatype 'a result = Ok 'a | Error error | Panic panic

section \<open>Chunked genesis: \<open>getGenesisChunksStartingFrom\<close>\<close>

text \<open>
  \<open>ResultGenesisChunk\<close> is the RPC client's answer; the client returns a pointer to it
  (\<open>None\<close> is nil) together with an error (\<open>None\<close> is nil).
\<close>

record ResultGenesisChunk =
  ChunkNumber :: "64 word"
  TotalChunks :: "64 word"
  Data :: string

type_synonym GenesisChunked = "64 word \<Rightarrow> ResultGenesisChunk option \<times> goerror option"

text \<open>
  The function recurses on \<open>id + 1\<close> until \<open>id == uint(res.TotalChunks-1)\<close>; nothing in
  the code bounds the recursion, so not returning is the value \<open>None\<close>. On the error path
  the message reads \<open>res.TotalChunks\<close>, which dereferences \<open>res\<close>. The parameters are the
  client's \<open>GenesisChunked\<close> and \<open>base64.StdEncoding.DecodeString\<close>; \<open>cid\<close> is
  the source's \<open>id\<close>.
\<close>

partial_function (option) getGenesisChunksStartingFrom ::
  "GenesisChunked \<Rightarrow> (string \<Rightarrow> goerror + bytes) \<Rightarrow> 64 word \<Rightarrow> bytes result option"
where
  "getGenesisChunksStartingFrom client DecodeString cid =
     (case client cid of
        (res, Some err) \<Rightarrow>
          (case res of
             None \<Rightarrow> Some (Panic NilDereference)
           | Some r \<Rightarrow> Some (Error (GetChunkError cid (TotalChunks r))))
      | (res, None) \<Rightarrow>
          (case res of
             None \<Rightarrow> Some (Panic NilDereference)
           | Some r \<Rightarrow>
               (case DecodeString (Data r) of
                  Inl err \<Rightarrow> Some (Error (DecodeChunkError cid (TotalChunks r)))
                | Inr bz \<Rightarrow>
                    if cid = TotalChunks r - 1 then Some (Ok bz)
                    else
                      Option.bind (getGenesisChunksStartingFrom client DecodeString (cid + 1))
                        (\<lambda>next. case next of
                           Ok nextChunk \<Rightarrow> Some (Ok (bz @ nextChunk))
                         | Error err \<Rightarrow> Some (Error err)
                         | Panic p \<Rightarrow> Some (Panic p)))))"

declare getGenesisChunksStartingFrom.simps [code]

section \<open>Paginated validators: \<open>Validators\<close>\<close>

record Validator =
  Address :: bytes
  PubKey :: bytes
  VotingPower :: "64 word"
  ProposerPriority :: "64 word"

record ResultValidators =
  BlockHeight :: "64 word"
  RV_Validators :: "Validator list"
  Count :: "64 word"
  Total :: "64 word"

text \<open>The client's \<open>Validators(ctx, &height, &page, &perPage)\<close>: height, page, perPage.\<close>

type_synonym ValidatorsRPC =
  "64 word \<Rightarrow> 64 word \<Rightarrow> 64 word \<Rightarrow> ResultValidators option \<times> goerror option"

text \<open>
  The loop \<open>for !stop\<close> with its variables \<open>vals\<close> and \<open>page\<close>; \<open>reqs\<close> records the
  page numbers requested so far, in order. The loop ends only when the running count
  equals the reported total, so not returning is the value \<open>None\<close>.
\<close>

partial_function (option) Validators_loop ::
  "ValidatorsRPC \<Rightarrow> 64 word \<Rightarrow> ResultValidators \<Rightarrow> 64 word \<Rightarrow> 64 word list
    \<Rightarrow> (ResultValidators result \<times> 64 word list) option"
where
  "Validators_loop client height vals page reqs =
     (case client height page 100 of
        (result, Some err) \<Rightarrow> Some (Error (LibError err), reqs @ [page])
      | (None, None) \<Rightarrow> Some (Panic NilDereference, reqs @ [page])
      | (Some result, None) \<Rightarrow>
          (let vals' = vals\<lparr>RV_Validators := RV_Validators vals @ RV_Validators result,
                             Count := Count vals + Count result,
                             Total := Total result\<rparr>
           in if Count vals' = Total vals' then Some (Ok vals', reqs @ [page])
              else Validators_loop client height vals' (page + 1) (reqs @ [page])))"

declare Validators_loop.simps [code]

definition Validators ::
  "ValidatorsRPC \<Rightarrow> 64 word \<Rightarrow> (ResultValidators result \<times> 64 word list) option"
where
  "Validators client height =
     Validators_loop client height
       \<lparr>BlockHeight = height, RV_Validators = [], Count = 0, Total = 0\<rparr> 1 []"

text \<open>
  What the pagination claim supposes of the node: page \<open>p\<close> (from 1) of a validator set
  \<open>vs\<close> holds its next at most 100 entries, counts them, and reports the size of the whole
  set as total. \<open>pagesOf T\<close> is the ceiling of \<open>T / 100\<close>.
\<close>

definition consistentPage :: "Validator list \<Rightarrow> 64 word \<Rightarrow> nat \<Rightarrow> ResultValidators" where
  "consistentPage vs height p =
     \<lparr>BlockHeight = height,
      RV_Validators = take 100 (drop (100 * (p - 1)) vs),
      Count = of_nat (length (take 100 (drop (100 * (p - 1)) vs))),
      Total = of_nat (length vs)\<rparr>"

definition pagesOf :: "nat \<Rightarrow> nat" where
  "pagesOf T = (T + 99) div 100"

section \<open>Transactions of a block: \<open>Tx\<close>, \<open>HandleVPTxs\<close>, \<open>Txs\<close>\<close>

subsection \<open>Data\<close>

text \<open>
  A decoded JSON value, as \<open>json.Unmarshal\<close> stores it in an \<open>interface{}\<close>. Numbers are
  carried along and never computed with.
\<close>

datatype json =
    JNull
  | JBool bool
  | JNumber real
  | JString string
  | JArray "json list"
  | JObject "(string \<times> json) list"

record Header =
  Height :: "64 word"
  ProposerAddress :: bytes

record Block =
  Block_Header :: Header
  Block_Txs :: "bytes list"

record ResultBlock =
  RB_Block :: "Block option"

record Any =
  TypeUrl :: string
  Any_Value :: bytes

record sdk_TxBody =
  Memo :: string
  sdk_Messages :: "Any list"

record VPStandardMessage =
  Index :: int
  Type :: string
  Bytes :: bytes

record types_TxBody =
  TxBody_TxBody :: sdk_TxBody
  TimeoutHeight :: "64 word"
  Messages :: "VPStandardMessage list"

record sdk_Tx =
  sdk_Body :: sdk_TxBody
  Signatures :: "bytes list"

text \<open>
  The declarations of \<open>types.Fee\<close> and \<open>types.SignerInfo\<close> are not among the sources;
  the code only builds the empty fee \<open>&types.Fee{}\<close> and the empty list of signer infos.
\<close>

record Fee =
  Amount :: "(string \<times> int) list"
  GasLimit :: "64 word"

record AuthInfo =
  SignerInfos :: "string list"
  AuthInfo_Fee :: Fee

record types_Tx =
  Tx_Tx :: sdk_Tx
  Tx_Body :: types_TxBody
  Tx_AuthInfo :: AuthInfo

record EventAttribute =
  Key :: string
  Attr_Value :: string

record Event =
  Event_Type :: string
  Attributes :: "EventAttribute list"

record sdk_TxResponse =
  sdk_Tx_any :: Any
  Events :: "Event list"
  sdk_Height :: "64 word"
  TxHash :: string

record types_TxResponse =
  TxResponse_TxResponse :: sdk_TxResponse
  TxResponse_Height :: "64 word"
  GasWanted :: "64 word"
  GasUsed :: "64 word"
  TxResponse_Tx :: types_Tx

record Transaction =
  Transaction_TxResponse :: types_TxResponse
  Transaction_Tx :: types_Tx

record HttpResponse =
  StatusCode :: int
  Body :: "goerror + bytes"
    \<comment> \<open>what \<open>io.ReadAll(resp.Body)\<close> gives\<close>

text \<open>
  The node \<open>cp\<close>: its \<open>txServiceAPI\<close> and the library calls the three functions make.
  \<open>ParseCombinedFormatForPresentation\<close> stands for the \<open>Disclosures\<close> field of the parse
  result, \<open>ValAddressFromHex\<close> and \<open>ValAddress_String\<close> for the validator address and its
  \<open>String()\<close>, \<open>Tx_Hash\<close> for \<open>tmTx.Hash()\<close>, \<open>HexBytes_String\<close> for
  \<open>ProposerAddress.String()\<close>.
\<close>

record Node =
  txServiceAPI :: string
  http_Get :: "string \<Rightarrow> goerror + HttpResponse"
  json_Unmarshal_Transaction :: "bytes \<Rightarrow> goerror + Transaction option"
  Tx_Hash :: "bytes \<Rightarrow> bytes"
  strings_TrimSpace :: "string \<Rightarrow> string"
  ParseCombinedFormatForPresentation :: "string \<Rightarrow> string list"
  RawURLEncoding_DecodeString :: "string \<Rightarrow> goerror + bytes"
  json_Unmarshal_array :: "bytes \<Rightarrow> goerror + json list"
  json_Marshal :: "(string \<rightharpoonup> json) \<Rightarrow> goerror + bytes"
  sha256_Sum256 :: "bytes \<Rightarrow> bytes"
  HexBytes_String :: "bytes \<Rightarrow> string"
  ValAddressFromHex :: "string \<Rightarrow> goerror + bytes"
  ValAddress_String :: "bytes \<Rightarrow> string"

subsection \<open>\<open>types/dchain.go\<close>\<close>

definition VP_TYPE :: string where
  "VP_TYPE = ''/dchain.tx.v1.MsgVerifiablePresentation''"

definition VP_MSG_INDEX :: int where
  "VP_MSG_INDEX = 0"

definition NewVPStandardMessage :: "bytes \<Rightarrow> VPStandardMessage" where
  "NewVPStandardMessage bs = \<lparr>Index = VP_MSG_INDEX, Type = VP_TYPE, Bytes = bs\<rparr>"

subsection \<open>Formatting and encoding\<close>

text \<open>\<open>string(b)\<close> of a byte slice and \<open>[]byte(s)\<close> of a string keep the bytes.\<close>

definition string_of_bytes :: "bytes \<Rightarrow> string" where
  "string_of_bytes bs = map (\<lambda>b. char_of (unat b)) bs"

definition bytes_of_string :: "string \<Rightarrow> bytes" where
  "bytes_of_string s = map (\<lambda>c. of_nat (of_char c)) s"

text \<open>\<open>fmt.Sprintf("%X", b)\<close> of a byte slice: two upper-case hexadecimal digits a byte.\<close>

definition hexDigits :: string where
  "hexDigits = ''0123456789ABCDEF''"

definition fmtX :: "bytes \<Rightarrow> string" where
  "fmtX bs = concat (map (\<lambda>b. [hexDigits ! (unat b div 16), hexDigits ! (unat b mod 16)]) bs)"

text \<open>
  \<open>binary.LittleEndian.PutUint64(salt, v)\<close> on a fresh 8-byte slice: byte \<open>i\<close> is
  \<open>byte(v >> (8 * i))\<close>.
\<close>

definition PutUint64 :: "64 word \<Rightarrow> bytes" where
  "PutUint64 v = map (\<lambda>i. ucast (drop_bit (8 * i) v)) [0..<8]"

subsection \<open>\<open>Tx\<close>: the lookup by hash\<close>

definition Tx :: "Node \<Rightarrow> string \<Rightarrow> Transaction option result" where
  "Tx cp hash =
     (case http_Get cp (txServiceAPI cp @ ''/cosmos/tx/v1beta1/txs/'' @ hash) of
        Inl err \<Rightarrow> Error (LibError err)
      | Inr resp \<Rightarrow>
          if StatusCode resp \<noteq> 200 then Error (StatusCodeError (StatusCode resp))
          else
            (case Body resp of
               Inl err \<Rightarrow> Error ReadBodyError
             | Inr body \<Rightarrow>
                 (case json_Unmarshal_Transaction cp body of
                    Inl err \<Rightarrow> Error (ConvertTxError err)
                  | Inr convTx \<Rightarrow> Ok convTx)))"

subsection \<open>\<open>HandleVPTxs\<close>: the presentation at position 0\<close>

text \<open>
  The loop over \<open>parsed.Disclosures\<close>, with the map \<open>disclosedJson\<close> it fills. The
  statement \<open>disclosedJson[disclosureArr[1].(string)] = disclosureArr[2]\<close> indexes the
  array at 1, asserts a string, and indexes the array at 2; each of the three can panic.
\<close>

fun compileDisclosed :: "Node \<Rightarrow> string list \<Rightarrow> (string \<rightharpoonup> json) \<Rightarrow> (string \<rightharpoonup> json) result" where
  "compileDisclosed cp [] disclosedJson = Ok disclosedJson"
| "compileDisclosed cp (disclosure # rest) disclosedJson =
     (case RawURLEncoding_DecodeString cp disclosure of
        Inl err \<Rightarrow> Error (DecodeDisclosureError err)
      | Inr decoded \<Rightarrow>
          (case json_Unmarshal_array cp decoded of
             Inl err \<Rightarrow> Error (UnmarshalDisclosureError err)
           | Inr disclosureArr \<Rightarrow>
               if length disclosureArr \<le> 1 then Panic IndexOutOfRange
               else
                 (case disclosureArr ! 1 of
                    JString name \<Rightarrow>
                      if length disclosureArr \<le> 2 then Panic IndexOutOfRange
                      else compileDisclosed cp rest (disclosedJson(name \<mapsto> disclosureArr ! 2))
                  | _ \<Rightarrow> Panic TypeAssertion)))"

text \<open>
  Lines 252 to 272 of \<open>HandleVPTxs\<close>: the claim set, once \<open>"@type"\<close> is added. \<open>None\<close>
  for \<open>txn\<close> is the nil pointer.
\<close>

definition disclosedJson :: "Node \<Rightarrow> bytes option \<Rightarrow> (string \<rightharpoonup> json) result" where
  "disclosedJson cp txn =
     (case txn of
        None \<Rightarrow> Panic NilDereference
      | Some raw \<Rightarrow>
          (case compileDisclosed cp
                  (ParseCombinedFormatForPresentation cp
                     (strings_TrimSpace cp (string_of_bytes raw))) Map.empty of
             Ok compiled \<Rightarrow> Ok (compiled(''@type'' \<mapsto> JString VP_TYPE))
           | Error err \<Rightarrow> Error err
           | Panic p \<Rightarrow> Panic p))"

text \<open>The record the function builds from \<open>jsonBytes\<close>, the block and the validator address.\<close>

definition buildTransaction :: "Node \<Rightarrow> bytes \<Rightarrow> Block \<Rightarrow> bytes \<Rightarrow> Transaction" where
  "buildTransaction cp jsonBytes b valAddr =
     (let txAny = \<lparr>TypeUrl = VP_TYPE, Any_Value = jsonBytes\<rparr>;
          sdkTxBody = \<lparr>Memo = ''Verifiable Presentation'', sdk_Messages = [txAny]\<rparr>;
          txBody = \<lparr>TxBody_TxBody = sdkTxBody,
                    TimeoutHeight = Height (Block_Header b),
                    Messages = [NewVPStandardMessage jsonBytes]\<rparr>;
          sdkTx = \<lparr>sdk_Body = sdkTxBody, Signatures = []\<rparr>;
          tx = \<lparr>Tx_Tx = sdkTx, Tx_Body = txBody,
                Tx_AuthInfo = \<lparr>SignerInfos = [], AuthInfo_Fee = \<lparr>Amount = [], GasLimit = 0\<rparr>\<rparr>\<rparr>;
          salt = PutUint64 (Height (Block_Header b));
          finalBytes = jsonBytes @ salt;
          hash = sha256_Sum256 cp finalBytes;
          sdkTxResponse =
            \<lparr>sdk_Tx_any = txAny,
             Events = [\<lparr>Event_Type = ''message'',
                        Attributes = [\<lparr>Key = ''proposer'',
                                       Attr_Value = ValAddress_String cp valAddr\<rparr>]\<rparr>],
             sdk_Height = Height (Block_Header b),
             TxHash = fmtX hash\<rparr>;
          txResponse =
            \<lparr>TxResponse_TxResponse = sdkTxResponse,
             TxResponse_Height = Height (Block_Header b),
             GasWanted = 0, GasUsed = 0, TxResponse_Tx = tx\<rparr>
      in \<lparr>Transaction_TxResponse = txResponse, Transaction_Tx = tx\<rparr>)"

text \<open>
  \<open>block\<close> is first dereferenced after \<open>json.Marshal\<close> (line 293); the only error after
  that is the one of \<open>ValAddressFromHex\<close>.
\<close>

definition HandleVPTxs :: "Node \<Rightarrow> bytes option \<Rightarrow> ResultBlock option \<Rightarrow> Transaction option result" where
  "HandleVPTxs cp txn block =
     (case disclosedJson cp txn of
        Error err \<Rightarrow> Error err
      | Panic p \<Rightarrow> Panic p
      | Ok claims \<Rightarrow>
          (case json_Marshal cp claims of
             Inl err \<Rightarrow> Error (LibError err)
           | Inr jsonBytes \<Rightarrow>
               (case block of
                  None \<Rightarrow> Panic NilDereference
                | Some rb \<Rightarrow>
                    (case RB_Block rb of
                       None \<Rightarrow> Panic NilDereference
                     | Some b \<Rightarrow>
                         (case ValAddressFromHex cp
                                 (HexBytes_String cp (ProposerAddress (Block_Header b))) of
                            Inl err \<Rightarrow> Error (LibError err)
                          | Inr valAddr \<Rightarrow>
                              Ok (Some (buildTransaction cp jsonBytes b valAddr)))))))"

subsection \<open>\<open>Txs\<close>: every transaction of a block\<close>

text \<open>
  The calls \<open>Txs\<close> makes are recorded in order: \<open>Call_HandleVPTxs\<close> with the raw
  transaction, \<open>Call_Tx\<close> with the hash string. \<open>txResponses\<close> is allocated with the length
  of the block's list and written by index; on an error the function returns no list.
\<close>

datatype call = Call_HandleVPTxs bytes | Call_Tx string

fun Txs_loop ::
  "Node \<Rightarrow> ResultBlock option \<Rightarrow> nat \<Rightarrow> bytes list \<Rightarrow> Transaction option list \<Rightarrow> call list
    \<Rightarrow> Transaction option list result \<times> call list"
where
  "Txs_loop cp block i [] txResponses calls = (Ok txResponses, calls)"
| "Txs_loop cp block i (tmTx # rest) txResponses calls =
     (if i = 0 then
        (case HandleVPTxs cp (Some tmTx) block of
           Error err \<Rightarrow> (Error err, calls @ [Call_HandleVPTxs tmTx])
         | Panic p \<Rightarrow> (Panic p, calls @ [Call_HandleVPTxs tmTx])
         | Ok txResponse \<Rightarrow>
             Txs_loop cp block (i + 1) rest (txResponses[i := txResponse])
               (calls @ [Call_HandleVPTxs tmTx]))
      else
        (case Tx cp (fmtX (Tx_Hash cp tmTx)) of
           Error err \<Rightarrow> (Error err, calls @ [Call_Tx (fmtX (Tx_Hash cp tmTx))])
         | Panic p \<Rightarrow> (Panic p, calls @ [Call_Tx (fmtX (Tx_Hash cp tmTx))])
         | Ok txResponse \<Rightarrow>
             Txs_loop cp block (i + 1) rest (txResponses[i := txResponse])
               (calls @ [Call_Tx (fmtX (Tx_Hash cp tmTx))])))"

definition Txs :: "Node \<Rightarrow> ResultBlock option \<Rightarrow> Transaction option list result \<times> call list" where
  "Txs cp block =
     (case block of
        None \<Rightarrow> (Panic NilDereference, [])
      | Some rb \<Rightarrow>
          (case RB_Block rb of
             None \<Rightarrow> (Panic NilDereference, [])
           | Some b \<Rightarrow>
               Txs_loop cp block 0 (Block_Txs b)
                 (replicate (length (Block_Txs b)) None) []))"

section \<open>Specification-side notions\<close>


text \<open>
  Last write wins: the value bound to \<open>k\<close> by a sequence of writes is the one of the last
  write to \<open>k\<close>, if there is any.
\<close>

definition lastWriteWins :: "(string \<times> json) list \<Rightarrow> string \<rightharpoonup> json" where
  "lastWriteWins writes k =
     (case filter (\<lambda>w. fst w = k) writes of
        [] \<Rightarrow> None
      | w # ws \<Rightarrow> Some (snd (last (w # ws))))"

text \<open>
  A disclosure token that the loop of \<open>HandleVPTxs\<close> accepts for the claim \<open>(name, val)\<close>:
  it decodes to a JSON array whose second element is the string \<open>name\<close> and whose third
  element is \<open>val\<close>.
\<close>

definition disclosureOf :: "Node \<Rightarrow> string \<Rightarrow> string \<times> json \<Rightarrow> bool" where
  "disclosureOf cp disclosure claim =
     (case RawURLEncoding_DecodeString cp disclosure of
        Inl err \<Rightarrow> False
      | Inr decoded \<Rightarrow>
          (case json_Unmarshal_array cp decoded of
             Inl err \<Rightarrow> False
           | Inr arr \<Rightarrow> 3 \<le> length arr \<and> arr ! 1 = JString (fst claim) \<and> arr ! 2 = snd claim))"

text \<open>The call by which \<open>Txs\<close> looks a transaction up: \<open>cp.Tx(fmt.Sprintf("%X", tmTx.Hash()))\<close>.\<close>

definition lookupCall :: "Node \<Rightarrow> bytes \<Rightarrow> call" where
  "lookupCall cp tmTx = Call_Tx (fmtX (Tx_Hash cp tmTx))"

section \<open>A concrete node\<close>

text \<open>
  Library calls that answer as the Go libraries do on the inputs used in the examples:
  \<open>strings.TrimSpace\<close> on ASCII white space, the combined format split at \<open>~\<close> (the
  disclosures are the parts between the first and the last), base64 and JSON decoding as
  tables. The hash is a stand-in: the identity.
\<close>

definition isSpace :: "char \<Rightarrow> bool" where
  "isSpace c = (c \<in> set [CHR '' '', CHR 0x09, CHR 0x0A, CHR 0x0B, CHR 0x0C, CHR 0x0D])"

definition exTrimSpace :: "string \<Rightarrow> string" where
  "exTrimSpace s = rev (dropWhile isSpace (rev (dropWhile isSpace s)))"

fun splitTilde :: "string \<Rightarrow> string list" where
  "splitTilde [] = [[]]"
| "splitTilde (c # cs) =
     (if c = CHR ''~'' then [] # splitTilde cs
      else (case splitTilde cs of p # ps \<Rightarrow> (c # p) # ps | [] \<Rightarrow> [[c]]))"

definition exParse :: "string \<Rightarrow> string list" where
  "exParse s = (let parts = splitTilde s in if 2 < length parts then butlast (tl parts) else [])"

definition exRawURLDecode :: "string \<Rightarrow> goerror + bytes" where
  \<open>exRawURLDecode d =
     (if d = ''WyJzYWx0MSIsIm5hbWUiLCJBbGljZSJd'' then Inr (bytes_of_string ''["salt1","name","Alice"]'')
      else if d = ''WyJzYWx0MiIsIm5hbWUiXQ'' then Inr (bytes_of_string ''["salt2","name"]'')
      else Inl ''illegal base64 data'')\<close>

definition exUnmarshalArray :: "bytes \<Rightarrow> goerror + json list" where
  \<open>exUnmarshalArray bs =
     (if bs = bytes_of_string ''["salt1","name","Alice"]''
        then Inr [JString ''salt1'', JString ''name'', JString ''Alice'']
      else if bs = bytes_of_string ''["salt2","name"]''
        then Inr [JString ''salt2'', JString ''name'']
      else Inl ''invalid character'')\<close>

definition exMarshal :: "(string \<rightharpoonup> json) \<Rightarrow> goerror + bytes" where
  \<open>exMarshal m =
     Inr (bytes_of_string
       (case m ''name'' of
          Some (JString v) \<Rightarrow> ''{"@type":"'' @ VP_TYPE @ ''","name":"'' @ v @ ''"}''
        | _ \<Rightarrow> ''{"@type":"'' @ VP_TYPE @ ''"}''))\<close>

definition exValAddressFromHex :: "string \<Rightarrow> goerror + bytes" where
  "exValAddressFromHex s =
     (if s = [] then Inl ''decoding Bech32 address failed: must provide an address''
      else Inr (bytes_of_string s))"

definition exTransaction :: Transaction where
  "exTransaction =
     (let body = \<lparr>Memo = ''transfer'', sdk_Messages = []\<rparr>;
          tx = \<lparr>Tx_Tx = \<lparr>sdk_Body = body, Signatures = [[1]]\<rparr>,
                Tx_Body = \<lparr>TxBody_TxBody = body, TimeoutHeight = 0, Messages = []\<rparr>,
                Tx_AuthInfo = \<lparr>SignerInfos = [''signer''],
                               AuthInfo_Fee = \<lparr>Amount = [(''stake'', 10)], GasLimit = 200000\<rparr>\<rparr>\<rparr>
      in \<lparr>Transaction_TxResponse =
            \<lparr>TxResponse_TxResponse =
               \<lparr>sdk_Tx_any = \<lparr>TypeUrl = ''/cosmos.tx.v1beta1.Tx'', Any_Value = []\<rparr>,
                Events = [], sdk_Height = 5, TxHash = ''0B''\<rparr>,
             TxResponse_Height = 5, GasWanted = 200000, GasUsed = 100000, TxResponse_Tx = tx\<rparr>,
          Transaction_Tx = tx\<rparr>)"

definition exGet :: "string \<Rightarrow> goerror + HttpResponse" where
  "exGet url = Inr \<lparr>StatusCode = 200, Body = Inr (bytes_of_string ''tx'')\<rparr>"

definition exUnmarshalTransaction :: "bytes \<Rightarrow> goerror + Transaction option" where
  "exUnmarshalTransaction body = Inr (Some exTransaction)"

definition exHash :: "bytes \<Rightarrow> bytes" where
  "exHash bs = bs"

definition exNode :: Node where
  "exNode =
     \<lparr>txServiceAPI = ''http://localhost:1317'',
      http_Get = exGet,
      json_Unmarshal_Transaction = exUnmarshalTransaction,
      Tx_Hash = exHash,
      strings_TrimSpace = exTrimSpace,
      ParseCombinedFormatForPresentation = exParse,
      RawURLEncoding_DecodeString = exRawURLDecode,
      json_Unmarshal_array = exUnmarshalArray,
      json_Marshal = exMarshal,
      sha256_Sum256 = exHash,
      HexBytes_String = fmtX,
      ValAddressFromHex = exValAddressFromHex,
      ValAddress_String = string_of_bytes\<rparr>"

text \<open>
  Three raw transactions: a presentation with the one disclosure
  \<open>["salt1","name","Alice"]\<close>, one whose disclosure \<open>["salt2","name"]\<close> has two elements,
  one whose disclosure is not base64url; an ordinary transaction; and the block of a given
  height that holds given transactions.
\<close>

definition vpAlice :: bytes where
  "vpAlice = bytes_of_string ''jwt~WyJzYWx0MSIsIm5hbWUiLCJBbGljZSJd~''"

definition vpShort :: bytes where
  "vpShort = bytes_of_string ''jwt~WyJzYWx0MiIsIm5hbWUiXQ~''"

definition vpBad :: bytes where
  "vpBad = bytes_of_string ''jwt~!~''"

definition exPlainTx :: bytes where
  "exPlainTx = [0x0B]"

definition exBlock :: "64 word \<Rightarrow> bytes list \<Rightarrow> Block" where
  "exBlock h txs = \<lparr>Block_Header = \<lparr>Height = h, ProposerAddress = [0xAB]\<rparr>, Block_Txs = txs\<rparr>"

definition exResultBlock :: "64 word \<Rightarrow> bytes list \<Rightarrow> ResultBlock" where
  "exResultBlock h txs = \<lparr>RB_Block = Some (exBlock h txs)\<rparr>"

definition exAliceJson :: bytes where
  \<open>exAliceJson =
     bytes_of_string ''{"@type":"/dchain.tx.v1.MsgVerifiablePresentation","name":"Alice"}''\<close>

definition exAliceTx :: "64 word \<Rightarrow> bytes list \<Rightarrow> Transaction" where
  "exAliceTx h txs = buildTransaction exNode exAliceJson (exBlock h txs) (bytes_of_string ''AB'')"

text \<open>
  Genesis chunks: a node that serves the two chunks \<open>{\<close> and \<open>}\<close>, and a client whose
  every call fails, returning a nil result with the error as the RPC client does.
\<close>

definition exChunk :: "nat \<Rightarrow> ResultGenesisChunk" where
  "exChunk i = \<lparr>ChunkNumber = of_nat i, TotalChunks = 2,
                Data = (if i = 0 then ''ew=='' else ''fQ=='')\<rparr>"

definition exChunkClient :: GenesisChunked where
  "exChunkClient cid = (Some (exChunk (unat cid)), None)"

definition exPayload :: "nat \<Rightarrow> bytes" where
  "exPayload i = (if i = 0 then [0x7B] else [0x7D])"

definition exStdDecode :: "string \<Rightarrow> goerror + bytes" where
  "exStdDecode s =
     (if s = ''ew=='' then Inr [0x7B] else if s = ''fQ=='' then Inr [0x7D]
      else Inl ''illegal base64 data'')"

definition failingChunkClient :: GenesisChunked where
  "failingChunkClient cid = (None, Some ''connection refused'')"

text \<open>A node that serves the validator set \<open>vs\<close> in consistent pages.\<close>

definition pagedClient :: "Validator list \<Rightarrow> ValidatorsRPC" where
  "pagedClient vs height page perPage = (Some (consistentPage vs height (unat page)), None)"

definition exValidator :: "nat \<Rightarrow> Validator" where
  "exValidator i = \<lparr>Address = replicate i 1, PubKey = [], VotingPower = 1, ProposerPriority = 0\<rparr>"

section \<open>Chunk reassembly\<close>

lemma of_nat_eq_64:
  assumes "a < 2 ^ 64" and "b < 2 ^ 64"
  shows "((of_nat a :: 64 word) = of_nat b) = (a = b)"
proof
  assume "(of_nat a :: 64 word) = of_nat b"
  then have "unat (of_nat a :: 64 word) = unat (of_nat b :: 64 word)" by simp
  then show "a = b" using assms by (simp add: unat_of_nat)
qed simp

text \<open>
  Started at chunk \<open>k\<close> of \<open>N\<close>, the recursion returns the payloads \<open>k\<close> to \<open>N - 1\<close> in
  order; the induction is on the number of chunks still to fetch.
\<close>

lemma getGenesisChunks_from:
  assumes N: "N < 2 ^ 63"
    and ch: "\<forall>i<N. client (of_nat i) = (Some (chunk i), None) \<and> TotalChunks (chunk i) = of_nat N
              \<and> DecodeString (Data (chunk i)) = Inr (payload i)"
  shows "k < N \<Longrightarrow> getGenesisChunksStartingFrom client DecodeString (of_nat k)
           = Some (Ok (concat (map payload [k..<N])))"
proof (induction "N - k" arbitrary: k)
  case 0
  then show ?case by simp
next
  case (Suc d)
  from Suc.prems ch have c: "client (of_nat k) = (Some (chunk k), None)"
    and t: "TotalChunks (chunk k) = of_nat N"
    and dd: "DecodeString (Data (chunk k)) = Inr (payload k)"
    by auto
  have N1: "(of_nat N :: 64 word) - 1 = of_nat (N - 1)"
    using Suc.prems by (cases N) simp_all
  have eq: "((of_nat k :: 64 word) = of_nat N - 1) = (k = N - 1)"
    unfolding N1 using N Suc.prems by (intro of_nat_eq_64) auto
  have step: "getGenesisChunksStartingFrom client DecodeString (of_nat k) =
      (if k = N - 1 then Some (Ok (payload k))
       else Option.bind (getGenesisChunksStartingFrom client DecodeString (of_nat k + 1))
              (\<lambda>next. case next of
                 Ok nextChunk \<Rightarrow> Some (Ok (payload k @ nextChunk))
               | Error err \<Rightarrow> Some (Error err)
               | Panic p \<Rightarrow> Some (Panic p)))"
    by (subst getGenesisChunksStartingFrom.simps) (simp add: c t dd eq)
  show ?case
  proof (cases "k = N - 1")
    case True
    then have "[k..<N] = [k]" using Suc.prems by (simp add: upt_rec)
    then show ?thesis unfolding step using True by simp
  next
    case False
    then have kk: "Suc k < N" using Suc.prems by simp
    have d: "d = N - Suc k" using Suc.hyps(2) by simp
    have ih: "getGenesisChunksStartingFrom client DecodeString (of_nat k + 1)
           = Some (Ok (concat (map payload [Suc k..<N])))"
      using Suc.hyps(1)[OF d kk] by (simp add: add.commute)
    have up: "[k..<N] = k # [Suc k..<N]" using Suc.prems by (simp add: upt_rec)
    show ?thesis unfolding step ih up using False by simp
  qed
qed

text \<open>
  C1. When each of the chunks \<open>0\<close> to \<open>N - 1\<close> is fetched without error, reports
  \<open>TotalChunks = N\<close> and has a payload that base64-decodes, \<open>getGenesisChunksStartingFrom(0)\<close>
  returns, and returns the decoded payloads concatenated in ascending index order.
\<close>

theorem getGenesisChunks_reassembly:
  assumes "1 \<le> N" and "N < 2 ^ 63"
    and "\<forall>i<N. client (of_nat i) = (Some (chunk i), None) \<and> TotalChunks (chunk i) = of_nat N
              \<and> DecodeString (Data (chunk i)) = Inr (payload i)"
  shows "getGenesisChunksStartingFrom client DecodeString 0
           = Some (Ok (concat (map payload [0..<N])))"
  using getGenesisChunks_from[OF assms(2,3), of 0] assms(1) by simp

lemma ex_chunks:
  "\<forall>i<2. exChunkClient (of_nat i) = (Some (exChunk i), None) \<and> TotalChunks (exChunk i) = of_nat 2
          \<and> exStdDecode (Data (exChunk i)) = Inr (exPayload i)"
proof (intro allI impI)
  fix i :: nat
  assume "i < 2"
  then have "i = 0 \<or> i = 1" by auto
  then show "exChunkClient (of_nat i) = (Some (exChunk i), None)
      \<and> TotalChunks (exChunk i) = of_nat 2 \<and> exStdDecode (Data (exChunk i)) = Inr (exPayload i)"
    by (auto simp: exChunkClient_def exChunk_def exStdDecode_def exPayload_def)
qed

theorem getGenesisChunks_reassembly_witness:
  "getGenesisChunksStartingFrom exChunkClient exStdDecode 0 = Some (Ok ([0x7B] @ [0x7D]))"
proof -
  have "concat (map exPayload [0..<2]) = [0x7B] @ [0x7D]"
    by (simp add: exPayload_def upt_rec)
  then show ?thesis
    using getGenesisChunks_reassembly
            [of 2 exChunkClient exChunk exStdDecode exPayload, OF _ _ ex_chunks]
    by simp
qed

section \<open>A failed chunk fetch\<close>

text \<open>
  When the client hands back a result together with the error, the function returns the
  error with the chunk index and that result's \<open>TotalChunks\<close>, and no bytes.
\<close>

lemma getGenesisChunks_fetch_error_with_result:
  "client cid = (Some r, Some err) \<Longrightarrow>
     getGenesisChunksStartingFrom client DecodeString cid
       = Some (Error (GetChunkError cid (TotalChunks r)))"
  by (subst getGenesisChunksStartingFrom.simps) simp

text \<open>When the client hands back nil with the error, building the message panics.\<close>

lemma getGenesisChunks_fetch_error_nil_result:
  "client cid = (None, Some err) \<Longrightarrow>
     getGenesisChunksStartingFrom client DecodeString cid = Some (Panic NilDereference)"
  by (subst getGenesisChunksStartingFrom.simps) simp

text \<open>
  C7. The fetch of chunk 0 fails and the client returns \<open>(nil, err)\<close>: the function does
  not return a fetch error, it panics on \<open>res.TotalChunks\<close>.
\<close>

theorem getGenesisChunks_fetch_failure_panics:
  "getGenesisChunksStartingFrom failingChunkClient exStdDecode 0 = Some (Panic NilDereference)"
  by (subst getGenesisChunksStartingFrom.simps) (simp add: failingChunkClient_def)

section \<open>Pagination\<close>

text \<open>
  The loop stops at page \<open>p\<close> exactly when \<open>100 * p\<close> reaches the size of the set, which
  among the pages \<open>1\<close> to \<open>max 1 (pagesOf T)\<close> is the last one. The invariant at the head
  of the loop: the first \<open>100 * (p - 1)\<close> validators are collected and counted, and the
  pages \<open>1\<close> to \<open>p - 1\<close> have been requested.
\<close>

lemma pagesOf_stop:
  assumes "1 \<le> p" "p \<le> max 1 (pagesOf T)"
  shows "(T \<le> 100 * p) = (p = max 1 (pagesOf T))"
  using assms unfolding pagesOf_def by (auto simp: max_def split: if_splits)

lemma Validators_loop_pages:
  assumes T: "length vs < 2 ^ 63"
    and pages: "\<forall>p. 1 \<le> p \<and> p \<le> max 1 (pagesOf (length vs)) \<longrightarrow>
               client height (of_nat p) 100 = (Some (consistentPage vs height p), None)"
  shows "1 \<le> p \<Longrightarrow> p \<le> max 1 (pagesOf (length vs)) \<Longrightarrow>
         Validators_loop client height
           \<lparr>BlockHeight = height, RV_Validators = take (100 * (p - 1)) vs,
            Count = of_nat (100 * (p - 1)), Total = tot\<rparr> (of_nat p) (map of_nat [1..<p])
         = Some (Ok \<lparr>BlockHeight = height, RV_Validators = vs,
                     Count = of_nat (length vs), Total = of_nat (length vs)\<rparr>,
                 map of_nat [1..<Suc (max 1 (pagesOf (length vs)))])"
proof (induction "max 1 (pagesOf (length vs)) - p" arbitrary: p tot)
  case 0
  let ?T = "length vs"
  from 0 have pP: "p = max 1 (pagesOf ?T)" by simp
  have stop: "?T \<le> 100 * p" using pagesOf_stop[OF "0.prems"] pP by simp
  have below: "100 * (p - 1) \<le> ?T" using "0.prems" unfolding pagesOf_def by (auto simp: max_def split: if_splits)
  have cl: "client height (of_nat p) 100 = (Some (consistentPage vs height p), None)"
    using pages "0.prems" by simp
  have tk: "take (100 * (p - 1)) vs @ take 100 (drop (100 * (p - 1)) vs) = vs"
    using stop "0.prems"(1) by (simp add: take_add[symmetric] algebra_simps)
  have len: "100 * (p - 1) + min (?T - 100 * (p - 1)) 100 = ?T"
    using stop below "0.prems"(1) by (cases p) (auto simp: min_def)
  have cnt: "(of_nat (100 * (p - 1)) :: 64 word) + of_nat (min (?T - 100 * (p - 1)) 100) = of_nat ?T"
    unfolding of_nat_add[symmetric] len ..
  have rq: "map of_nat [1..<p] @ [of_nat p] = (map of_nat [1..<Suc p] :: 64 word list)"
    using "0.prems"(1) by simp
  show ?case
    apply (subst Validators_loop.simps)
    apply (simp only: cl prod.case option.case Let_def consistentPage_def)
    using tk cnt rq pP by (simp del: of_nat_add of_nat_mult)
next
  case (Suc d)
  let ?T = "length vs"
  from Suc have pP: "p < max 1 (pagesOf ?T)" by simp
  have nstop: "100 * p < ?T" using pagesOf_stop[OF Suc.prems] pP by simp
  have cl: "client height (of_nat p) 100 = (Some (consistentPage vs height p), None)"
    using pages Suc.prems by simp
  have tk: "take (100 * (p - 1)) vs @ take 100 (drop (100 * (p - 1)) vs) = take (100 * p) vs"
    using Suc.prems(1) by (simp add: take_add[symmetric] algebra_simps)
  have len: "100 * (p - 1) + min (?T - 100 * (p - 1)) 100 = 100 * p"
    using nstop Suc.prems(1) by (cases p) (auto simp: min_def)
  have cnt: "(of_nat (100 * (p - 1)) :: 64 word) + of_nat (min (?T - 100 * (p - 1)) 100) = of_nat (100 * p)"
    unfolding of_nat_add[symmetric] len ..
  have ne: "(of_nat (100 * p) :: 64 word) \<noteq> of_nat ?T"
    using nstop T by (subst of_nat_eq_64) auto
  have rq: "map of_nat [1..<p] @ [of_nat p] = (map of_nat [1..<Suc p] :: 64 word list)"
    using Suc.prems(1) by simp
  have ih: "Validators_loop client height
           \<lparr>BlockHeight = height, RV_Validators = take (100 * (Suc p - 1)) vs,
            Count = of_nat (100 * (Suc p - 1)), Total = of_nat ?T\<rparr> (of_nat (Suc p)) (map of_nat [1..<Suc p])
         = Some (Ok \<lparr>BlockHeight = height, RV_Validators = vs,
                     Count = of_nat (length vs), Total = of_nat (length vs)\<rparr>,
                 map of_nat [1..<Suc (max 1 (pagesOf (length vs)))])"
    using Suc.hyps(2) pP by (intro Suc.hyps(1)) auto
  have sp: "(of_nat p :: 64 word) + 1 = of_nat (Suc p)" by simp
  show ?case
    apply (subst Validators_loop.simps)
    apply (simp only: cl prod.case option.case Let_def consistentPage_def)
    apply (simp only: ResultValidators.simps length_take length_drop tk cnt ne if_False sp rq)
    using ih by simp
qed

text \<open>
  C3, as the code has it. For a validator set of \<open>T\<close> distinct entries served in consistent
  pages of 100, \<open>Validators(height)\<close> returns, after requesting the pages \<open>1\<close> to
  \<open>max 1 (ceil (T / 100))\<close> once each and in order, exactly the \<open>T\<close> validators with no
  duplicates and with count and total \<open>T\<close>. For \<open>T \<ge> 1\<close> these are \<open>ceil (T / 100)\<close>
  requests; for the empty set it is the one request of page 1.
\<close>

theorem Validators_pages:
  assumes "length vs < 2 ^ 63" and "distinct vs"
    and "\<forall>p. 1 \<le> p \<and> p \<le> max 1 (pagesOf (length vs)) \<longrightarrow>
           client height (of_nat p) 100 = (Some (consistentPage vs height p), None)"
  shows "\<exists>vals reqs. Validators client height = Some (Ok vals, reqs)
           \<and> reqs = map of_nat [1..<Suc (max 1 (pagesOf (length vs)))]
           \<and> length reqs = max 1 (pagesOf (length vs))
           \<and> RV_Validators vals = vs
           \<and> length (RV_Validators vals) = length vs
           \<and> distinct (RV_Validators vals)
           \<and> Count vals = of_nat (length vs) \<and> Total vals = of_nat (length vs)"
  using Validators_loop_pages[where client = client and height = height and p = 1 and tot = 0,
          OF assms(1,3)] assms(2)
  by (simp add: Validators_def)

lemma ex_distinct: "distinct (map exValidator [0..<n])"
proof -
  have "inj exValidator"
  proof (rule injI)
    fix a b assume "exValidator a = exValidator b"
    then have "length (Address (exValidator a)) = length (Address (exValidator b))" by simp
    then show "a = b" by (simp add: exValidator_def)
  qed
  then show ?thesis by (simp add: distinct_map inj_on_def)
qed

lemma pagedClient_page:
  "p < 2 ^ 64 \<Longrightarrow> pagedClient vs height (of_nat p) 100 = (Some (consistentPage vs height p), None)"
  by (simp add: pagedClient_def unat_of_nat)

theorem Validators_pages_witness:
  "\<exists>vals reqs. Validators (pagedClient (map exValidator [0..<250])) 7 = Some (Ok vals, reqs)
      \<and> reqs = [1, 2, 3] \<and> length (RV_Validators vals) = 250 \<and> distinct (RV_Validators vals)"
proof -
  have p: "pagesOf 250 = 3" by (simp add: pagesOf_def)
  have pg: "\<forall>p. 1 \<le> p \<and> p \<le> max 1 (pagesOf (length (map exValidator [0..<250]))) \<longrightarrow>
      pagedClient (map exValidator [0..<250]) 7 (of_nat p) 100
        = (Some (consistentPage (map exValidator [0..<250]) 7 p), None)"
    by (auto simp: p intro!: pagedClient_page)
  have r: "map of_nat [1..<Suc 3] = [1, 2, 3 :: 64 word]" by (simp add: upt_rec)
  from Validators_pages[of "map exValidator [0..<250]" "pagedClient (map exValidator [0..<250])" 7,
            OF _ ex_distinct pg]
  obtain vals reqs where
    v: "Validators (pagedClient (map exValidator [0..<250])) 7 = Some (Ok vals, reqs)"
    and q: "reqs = map of_nat [1..<Suc (max 1 (pagesOf (length (map exValidator [0..<250]))))]"
    and l: "length (RV_Validators vals) = length (map exValidator [0..<250])"
    and d: "distinct (RV_Validators vals)"
    by auto
  from q have "reqs = [1, 2, 3]" using r by (simp add: p)
  with v l d show ?thesis by simp
qed

text \<open>
  C3, as stated, at the empty validator set: page 1 is requested although
  \<open>ceil (0 / 100) = 0\<close>.
\<close>

theorem Validators_empty_set_one_request:
  "Validators (pagedClient []) 7
     = Some (Ok \<lparr>BlockHeight = 7, RV_Validators = [], Count = 0, Total = 0\<rparr>, [1])
   \<and> length [1 :: 64 word] \<noteq> pagesOf (length ([] :: Validator list))"
  unfolding Validators_def
  by (subst Validators_loop.simps) (simp add: pagedClient_def consistentPage_def pagesOf_def)

section \<open>Facts about the encodings\<close>












section \<open>The concrete node at work\<close>

text \<open>What the concrete node does with the example transactions.\<close>

lemma string_of_bytes_of_string: "string_of_bytes (bytes_of_string s) = s"
  by (induction s) (simp_all add: string_of_bytes_def bytes_of_string_def unat_of_nat)

lemma ex_disclosures_Alice:
  "ParseCombinedFormatForPresentation exNode (strings_TrimSpace exNode (string_of_bytes vpAlice))
     = [''WyJzYWx0MSIsIm5hbWUiLCJBbGljZSJd'']"
  by (simp add: exNode_def vpAlice_def string_of_bytes_of_string
        exTrimSpace_def isSpace_def exParse_def)

lemma ex_disclosures_Short:
  "ParseCombinedFormatForPresentation exNode (strings_TrimSpace exNode (string_of_bytes vpShort))
     = [''WyJzYWx0MiIsIm5hbWUiXQ'']"
  by (simp add: exNode_def vpShort_def string_of_bytes_of_string
        exTrimSpace_def isSpace_def exParse_def)

lemma ex_disclosures_Bad:
  "ParseCombinedFormatForPresentation exNode (strings_TrimSpace exNode (string_of_bytes vpBad))
     = [''!'']"
  by (simp add: exNode_def vpBad_def string_of_bytes_of_string
        exTrimSpace_def isSpace_def exParse_def)

lemma ex_disclosedJson_Alice:
  "disclosedJson exNode (Some vpAlice)
     = Ok [''name'' \<mapsto> JString ''Alice'', ''@type'' \<mapsto> JString VP_TYPE]"
  unfolding disclosedJson_def option.case ex_disclosures_Alice
  by (simp add: exNode_def exRawURLDecode_def exUnmarshalArray_def)

lemma ex_HandleVPTxs_Alice:
  "HandleVPTxs exNode (Some vpAlice) (Some (exResultBlock h txs)) = Ok (Some (exAliceTx h txs))"
  unfolding HandleVPTxs_def ex_disclosedJson_Alice
  by (simp add: exNode_def exMarshal_def exResultBlock_def exBlock_def exValAddressFromHex_def
        fmtX_def hexDigits_def exAliceTx_def exAliceJson_def VP_TYPE_def)

lemma ex_HandleVPTxs_Short:
  "HandleVPTxs exNode (Some vpShort) (Some (exResultBlock h txs)) = Panic IndexOutOfRange"
  unfolding HandleVPTxs_def disclosedJson_def option.case ex_disclosures_Short
  by (simp add: exNode_def exRawURLDecode_def exUnmarshalArray_def bytes_of_string_def)

lemma ex_HandleVPTxs_Bad:
  "HandleVPTxs exNode (Some vpBad) (Some (exResultBlock h txs))
     = Error (DecodeDisclosureError ''illegal base64 data'')"
  unfolding HandleVPTxs_def disclosedJson_def option.case ex_disclosures_Bad
  by (simp add: exNode_def exRawURLDecode_def)

lemma ex_Tx: "Tx exNode hash = Ok (Some exTransaction)"
  by (simp add: Tx_def exNode_def exGet_def exUnmarshalTransaction_def)

section \<open>The disclosed claim set\<close>

text \<open>
  The loop writes the claims in the order of the disclosures, so each name ends up bound
  to the value of its last disclosure. The accepted disclosures are exactly those of the
  runs in which the loop returns a map.
\<close>

lemma lastWriteWins_Nil: "lastWriteWins [] k = None"
  by (simp add: lastWriteWins_def)

lemma lastWriteWins_Cons:
  "lastWriteWins ((n, v) # ws) k =
     (case lastWriteWins ws k of Some x \<Rightarrow> Some x | None \<Rightarrow> if n = k then Some v else None)"
  by (auto simp: lastWriteWins_def split: list.splits)

lemma compileDisclosed_writes:
  "list_all2 (disclosureOf cp) ds claims \<Longrightarrow>
     compileDisclosed cp ds m
       = Ok (\<lambda>k. case lastWriteWins claims k of None \<Rightarrow> m k | Some v \<Rightarrow> Some v)"
proof (induction ds claims arbitrary: m rule: list_all2_induct)
  case Nil
  then show ?case by (simp add: lastWriteWins_Nil)
next
  case (Cons d ds c cs)
  obtain n v where c: "c = (n, v)" by (cases c)
  from Cons.hyps(1) c obtain decoded arr where
    dec: "RawURLEncoding_DecodeString cp d = Inr decoded"
    and arr: "json_Unmarshal_array cp decoded = Inr arr"
    and len: "3 \<le> length arr" and nm: "arr ! 1 = JString n" and vl: "arr ! 2 = v"
    by (auto simp: disclosureOf_def split: sum.splits)
  have "compileDisclosed cp (d # ds) m = compileDisclosed cp ds (m(n \<mapsto> v))"
    using dec arr len nm vl by simp
  also have "\<dots> = Ok (\<lambda>k. case lastWriteWins cs k of None \<Rightarrow> (m(n \<mapsto> v)) k | Some x \<Rightarrow> Some x)"
    by (rule Cons.IH)
  also have "(\<lambda>k. case lastWriteWins cs k of None \<Rightarrow> (m(n \<mapsto> v)) k | Some x \<Rightarrow> Some x)
      = (\<lambda>k. case lastWriteWins (c # cs) k of None \<Rightarrow> m k | Some x \<Rightarrow> Some x)"
    by (rule ext) (simp add: c lastWriteWins_Cons split: option.splits)
  finally show ?case .
qed

lemma compileDisclosed_Ok_claims:
  "compileDisclosed cp ds m = Ok m' \<Longrightarrow> \<exists>claims. list_all2 (disclosureOf cp) ds claims"
proof (induction ds arbitrary: m)
  case Nil
  then show ?case by simp
next
  case (Cons d ds)
  from Cons.prems obtain decoded arr n where
    dec: "RawURLEncoding_DecodeString cp d = Inr decoded"
    and arr: "json_Unmarshal_array cp decoded = Inr arr"
    and len: "3 \<le> length arr" and nm: "arr ! 1 = JString n"
    and rest: "compileDisclosed cp ds (m(n \<mapsto> arr ! 2)) = Ok m'"
    by (auto split: sum.splits if_splits json.splits)
  from Cons.IH[OF rest] obtain cs where "list_all2 (disclosureOf cp) ds cs" ..
  moreover have "disclosureOf cp d (n, arr ! 2)"
    using dec arr len nm by (simp add: disclosureOf_def)
  ultimately have "list_all2 (disclosureOf cp) (d # ds) ((n, arr ! 2) # cs)" by simp
  then show ?case ..
qed

text \<open>
  C8. When every disclosure of the presentation decodes to a claim, the claim set binds
  each claim name to the value of the last disclosure with that name, and \<open>"@type"\<close>,
  written after the loop, to \<open>VP_TYPE\<close>. The witness is the scenario of the one
  disclosure \<open>["salt1","name","Alice"]\<close>.
\<close>

theorem disclosedJson_last_write_wins:
  assumes "list_all2 (disclosureOf cp)
             (ParseCombinedFormatForPresentation cp (strings_TrimSpace cp (string_of_bytes raw)))
             claims"
  shows "disclosedJson cp (Some raw) = Ok ((lastWriteWins claims)(''@type'' \<mapsto> JString VP_TYPE))"
proof -
  have "(\<lambda>k. case lastWriteWins claims k of None \<Rightarrow> Map.empty k | Some v \<Rightarrow> Some v)
      = lastWriteWins claims"
    by (rule ext) (simp split: option.splits)
  then show ?thesis
    using compileDisclosed_writes[OF assms, of Map.empty] by (simp add: disclosedJson_def)
qed

theorem disclosedJson_last_write_wins_witness:
  "disclosedJson exNode (Some vpAlice)
     = Ok [''name'' \<mapsto> JString ''Alice'', ''@type'' \<mapsto> JString VP_TYPE]"
proof -
  have d: "list_all2 (disclosureOf exNode)
             (ParseCombinedFormatForPresentation exNode
                (strings_TrimSpace exNode (string_of_bytes vpAlice)))
             [(''name'', JString ''Alice'')]"
    unfolding ex_disclosures_Alice
    by (simp add: disclosureOf_def exNode_def exRawURLDecode_def exUnmarshalArray_def)
  have m: "lastWriteWins [(''name'', JString ''Alice'')] = [''name'' \<mapsto> JString ''Alice'']"
    by (rule ext) (simp add: lastWriteWins_def)
  show ?thesis
    using disclosedJson_last_write_wins[OF d] by (simp only: m)
qed

section \<open>Malformed disclosures\<close>

text \<open>
  The loop does not check the shape of the decoded array. Fewer than three elements or a
  second element that is not a string make it panic; elements beyond the third are ignored.
\<close>

lemma compileDisclosed_too_short:
  assumes "RawURLEncoding_DecodeString cp d = Inr decoded"
    and "json_Unmarshal_array cp decoded = Inr arr" and "length arr < 3"
  shows "compileDisclosed cp (d # ds) m = Panic IndexOutOfRange
       \<or> compileDisclosed cp (d # ds) m = Panic TypeAssertion"
  using assms by (auto split: json.splits)

lemma compileDisclosed_name_not_string:
  assumes "RawURLEncoding_DecodeString cp d = Inr decoded"
    and "json_Unmarshal_array cp decoded = Inr arr" and "2 \<le> length arr"
    and "\<forall>n. arr ! 1 \<noteq> JString n"
  shows "compileDisclosed cp (d # ds) m = Panic TypeAssertion"
  using assms by (auto split: json.splits)

lemma compileDisclosed_too_long:
  assumes "RawURLEncoding_DecodeString cp d = Inr decoded"
    and "json_Unmarshal_array cp decoded = Inr (s # JString n # v # extra)"
  shows "compileDisclosed cp (d # ds) m = compileDisclosed cp ds (m(n \<mapsto> v))"
  using assms by simp

text \<open>
  C2. A presentation whose disclosure decodes to the two-element array
  \<open>["salt2","name"]\<close>: \<open>HandleVPTxs\<close> does not return an error, it panics with an index
  out of range.
\<close>

theorem HandleVPTxs_two_element_disclosure_panics:
  "HandleVPTxs exNode (Some vpShort) (Some (exResultBlock 5 [vpShort])) = Panic IndexOutOfRange"
  by (rule ex_HandleVPTxs_Short)

section \<open>The transaction identifier\<close>



lemma ex_RB: "RB_Block (exResultBlock h txs) = Some (exBlock h txs)"
  by (simp add: exResultBlock_def)





section \<open>The transactions of a block\<close>

text \<open>
  From position 1 on the loop only looks transactions up. It issues the lookups in the
  order of the block and stops at the first that fails; when it returns a list, the entries
  before its starting position are untouched and each later entry is the result of the
  lookup of the transaction at that position.
\<close>

lemma Txs_loop_lookups:
  "0 < i \<Longrightarrow> Txs_loop cp block i txs acc calls = (r, calls') \<Longrightarrow>
     \<exists>n\<le>length txs. calls' = calls @ map (lookupCall cp) (take n txs)
       \<and> (\<forall>rs. r = Ok rs \<longrightarrow> n = length txs \<and> length rs = length acc
             \<and> (\<forall>j<i. j < length acc \<longrightarrow> rs ! j = acc ! j)
             \<and> (\<forall>j<length txs. i + j < length acc \<longrightarrow>
                   Tx cp (fmtX (Tx_Hash cp (txs ! j))) = Ok (rs ! (i + j))))"
proof (induction txs arbitrary: i acc calls)
  case Nil
  then show ?case by auto
next
  case (Cons tmTx rest)
  let ?h = "fmtX (Tx_Hash cp tmTx)"
  show ?case
  proof (cases "Tx cp ?h")
    case (Ok x)
    with Cons.prems have run:
      "Txs_loop cp block (i + 1) rest (acc[i := x]) (calls @ [Call_Tx ?h]) = (r, calls')"
      by simp
    from Cons.IH[OF _ run] obtain n where n: "n \<le> length rest"
      and c: "calls' = (calls @ [Call_Tx ?h]) @ map (lookupCall cp) (take n rest)"
      and ok: "\<forall>rs. r = Ok rs \<longrightarrow> n = length rest \<and> length rs = length (acc[i := x])
             \<and> (\<forall>j<i + 1. j < length (acc[i := x]) \<longrightarrow> rs ! j = acc[i := x] ! j)
             \<and> (\<forall>j<length rest. i + 1 + j < length (acc[i := x]) \<longrightarrow>
                   Tx cp (fmtX (Tx_Hash cp (rest ! j))) = Ok (rs ! (i + 1 + j)))"
      by auto
    have c': "calls' = calls @ map (lookupCall cp) (take (Suc n) (tmTx # rest))"
      using c by (simp add: lookupCall_def)
    have "\<forall>rs. r = Ok rs \<longrightarrow> Suc n = length (tmTx # rest) \<and> length rs = length acc
             \<and> (\<forall>j<i. j < length acc \<longrightarrow> rs ! j = acc ! j)
             \<and> (\<forall>j<length (tmTx # rest). i + j < length acc \<longrightarrow>
                   Tx cp (fmtX (Tx_Hash cp ((tmTx # rest) ! j))) = Ok (rs ! (i + j)))"
    proof (intro allI impI)
      fix rs assume r: "r = Ok rs"
      with ok have n': "n = length rest" and l: "length rs = length acc"
        and keep: "\<forall>j<i + 1. j < length acc \<longrightarrow> rs ! j = acc[i := x] ! j"
        and tl: "\<forall>j<length rest. i + 1 + j < length acc \<longrightarrow>
                   Tx cp (fmtX (Tx_Hash cp (rest ! j))) = Ok (rs ! (i + 1 + j))"
        by auto
      have a: "\<forall>j<i. j < length acc \<longrightarrow> rs ! j = acc ! j"
        using keep by auto
      have b: "\<forall>j<length (tmTx # rest). i + j < length acc \<longrightarrow>
                   Tx cp (fmtX (Tx_Hash cp ((tmTx # rest) ! j))) = Ok (rs ! (i + j))"
      proof (intro allI impI)
        fix j assume j: "j < length (tmTx # rest)" and ij: "i + j < length acc"
        show "Tx cp (fmtX (Tx_Hash cp ((tmTx # rest) ! j))) = Ok (rs ! (i + j))"
        proof (cases j)
          case 0
          then have "rs ! (i + j) = x" using keep ij by simp
          then show ?thesis using Ok 0 by simp
        next
          case (Suc j')
          then show ?thesis using tl j ij by simp
        qed
      qed
      from n' l a b show "Suc n = length (tmTx # rest) \<and> length rs = length acc
             \<and> (\<forall>j<i. j < length acc \<longrightarrow> rs ! j = acc ! j)
             \<and> (\<forall>j<length (tmTx # rest). i + j < length acc \<longrightarrow>
                   Tx cp (fmtX (Tx_Hash cp ((tmTx # rest) ! j))) = Ok (rs ! (i + j)))"
        by simp
    qed
    with c' n show ?thesis by (intro exI[of _ "Suc n"]) simp
  next
    case (Error e)
    with Cons.prems have "r = Error e" and "calls' = calls @ [Call_Tx ?h]" by auto
    then show ?thesis by (intro exI[of _ "Suc 0"]) (simp add: lookupCall_def)
  next
    case (Panic p)
    with Cons.prems have "r = Panic p" and "calls' = calls @ [Call_Tx ?h]" by auto
    then show ?thesis by (intro exI[of _ "Suc 0"]) (simp add: lookupCall_def)
  qed
qed

lemma Txs_loop_all_ok:
  "list_all2 (\<lambda>u y. Tx cp (fmtX (Tx_Hash cp u)) = Ok y) txs ys \<Longrightarrow> 0 < i \<Longrightarrow>
   length acc = i + length txs \<Longrightarrow>
   Txs_loop cp block i txs acc calls
     = (Ok (take i acc @ ys), calls @ map (lookupCall cp) txs)"
proof (induction txs ys arbitrary: i acc calls rule: list_all2_induct)
  case Nil
  then show ?case by simp
next
  case (Cons u txs y ys)
  have "Txs_loop cp block i (u # txs) acc calls
      = Txs_loop cp block (i + 1) txs (acc[i := y]) (calls @ [Call_Tx (fmtX (Tx_Hash cp u))])"
    using Cons.prems(1) Cons.hyps(1) by simp
  also have "\<dots> = (Ok (take (i + 1) (acc[i := y]) @ ys),
                   (calls @ [Call_Tx (fmtX (Tx_Hash cp u))]) @ map (lookupCall cp) txs)"
    using Cons.prems by (intro Cons.IH) auto
  also have "take (i + 1) (acc[i := y]) = take i acc @ [y]"
    using Cons.prems(2) by (simp add: take_Suc_conv_app_nth)
  finally show ?case by (simp add: lookupCall_def)
qed


lemma Txs_nonempty:
  assumes "RB_Block rb = Some b" and "Block_Txs b = t # rest"
  shows "Txs cp (Some rb) =
     (case HandleVPTxs cp (Some t) (Some rb) of
        Error err \<Rightarrow> (Error err, [Call_HandleVPTxs t])
      | Panic p \<Rightarrow> (Panic p, [Call_HandleVPTxs t])
      | Ok x \<Rightarrow> Txs_loop cp (Some rb) 1 rest (x # replicate (length rest) None)
                  [Call_HandleVPTxs t])"
  using assms by (simp add: Txs_def split: result.splits)

lemma ex_Txs: "Block_Txs (exBlock h txs) = txs"
  by (simp add: exBlock_def)

text \<open>
  C9. For a block whose list of transactions is \<open>t # rest\<close>: the first call of \<open>Txs\<close> is
  \<open>HandleVPTxs\<close> on \<open>t\<close> and every later call is the lookup by hash of a transaction of
  \<open>rest\<close>, in the order of the block; a returned list has the length of the block's list,
  holds the result of \<open>HandleVPTxs\<close> at position 0 and the result of the lookup of
  transaction \<open>j\<close> at each position \<open>j \<ge> 1\<close>; and when all the calls succeed \<open>Txs\<close> returns
  their results in the order of the block.
\<close>

theorem Txs_routing:
  assumes "RB_Block rb = Some b" and "Block_Txs b = t # rest"
  shows "(\<exists>n\<le>length rest.
            snd (Txs cp (Some rb)) = Call_HandleVPTxs t # map (lookupCall cp) (take n rest))
       \<and> (\<forall>rs. fst (Txs cp (Some rb)) = Ok rs \<longrightarrow>
              snd (Txs cp (Some rb)) = Call_HandleVPTxs t # map (lookupCall cp) rest
            \<and> length rs = length (t # rest)
            \<and> HandleVPTxs cp (Some t) (Some rb) = Ok (rs ! 0)
            \<and> (\<forall>j<length rest. Tx cp (fmtX (Tx_Hash cp (rest ! j))) = Ok (rs ! Suc j)))
       \<and> (\<forall>x ys. HandleVPTxs cp (Some t) (Some rb) = Ok x
              \<and> list_all2 (\<lambda>u y. Tx cp (fmtX (Tx_Hash cp u)) = Ok y) rest ys \<longrightarrow>
              Txs cp (Some rb) = (Ok (x # ys), Call_HandleVPTxs t # map (lookupCall cp) rest))"
proof (cases "HandleVPTxs cp (Some t) (Some rb)")
  case (Ok x)
  let ?acc = "x # replicate (length rest) None"
  have run: "Txs cp (Some rb) = Txs_loop cp (Some rb) 1 rest ?acc [Call_HandleVPTxs t]"
    using Txs_nonempty[OF assms, of cp] Ok by simp
  obtain r calls' where rc: "Txs_loop cp (Some rb) 1 rest ?acc [Call_HandleVPTxs t] = (r, calls')"
    by (cases "Txs_loop cp (Some rb) 1 rest ?acc [Call_HandleVPTxs t]")
  from Txs_loop_lookups[OF _ rc] obtain n where n: "n \<le> length rest"
    and c: "calls' = [Call_HandleVPTxs t] @ map (lookupCall cp) (take n rest)"
    and ok: "\<forall>rs. r = Ok rs \<longrightarrow> n = length rest \<and> length rs = length ?acc
             \<and> (\<forall>j<1. j < length ?acc \<longrightarrow> rs ! j = ?acc ! j)
             \<and> (\<forall>j<length rest. 1 + j < length ?acc \<longrightarrow>
                   Tx cp (fmtX (Tx_Hash cp (rest ! j))) = Ok (rs ! (1 + j)))"
    by auto
  have first: "\<exists>n\<le>length rest.
      snd (Txs cp (Some rb)) = Call_HandleVPTxs t # map (lookupCall cp) (take n rest)"
    using n c run rc by auto
  have second: "\<forall>rs. fst (Txs cp (Some rb)) = Ok rs \<longrightarrow>
              snd (Txs cp (Some rb)) = Call_HandleVPTxs t # map (lookupCall cp) rest
            \<and> length rs = length (t # rest)
            \<and> HandleVPTxs cp (Some t) (Some rb) = Ok (rs ! 0)
            \<and> (\<forall>j<length rest. Tx cp (fmtX (Tx_Hash cp (rest ! j))) = Ok (rs ! Suc j))"
    using ok c run rc Ok by auto
  have third: "\<forall>x ys. HandleVPTxs cp (Some t) (Some rb) = Ok x
              \<and> list_all2 (\<lambda>u y. Tx cp (fmtX (Tx_Hash cp u)) = Ok y) rest ys \<longrightarrow>
              Txs cp (Some rb) = (Ok (x # ys), Call_HandleVPTxs t # map (lookupCall cp) rest)"
  proof (intro allI impI, elim conjE)
    fix x' ys
    assume "HandleVPTxs cp (Some t) (Some rb) = Ok x'"
      and l: "list_all2 (\<lambda>u y. Tx cp (fmtX (Tx_Hash cp u)) = Ok y) rest ys"
    then have x': "x' = x" using Ok by simp
    show "Txs cp (Some rb) = (Ok (x' # ys), Call_HandleVPTxs t # map (lookupCall cp) rest)"
      unfolding run x'
      using Txs_loop_all_ok[OF l, of 1 ?acc "Some rb" "[Call_HandleVPTxs t]"] by simp
  qed
  from first second third show ?thesis by blast
next
  case (Error e)
  then have "Txs cp (Some rb) = (Error e, [Call_HandleVPTxs t])"
    using Txs_nonempty[OF assms, of cp] by simp
  with Error show ?thesis by (auto intro: exI[of _ 0])
next
  case (Panic p)
  then have "Txs cp (Some rb) = (Panic p, [Call_HandleVPTxs t])"
    using Txs_nonempty[OF assms, of cp] by simp
  with Panic show ?thesis by (auto intro: exI[of _ 0])
qed

theorem Txs_routing_witness:
  "Txs exNode (Some (exResultBlock 5 [vpAlice, exPlainTx]))
     = (Ok [Some (exAliceTx 5 [vpAlice, exPlainTx]), Some exTransaction],
        [Call_HandleVPTxs vpAlice, Call_Tx ''0B''])"
proof -
  have l: "list_all2 (\<lambda>u y. Tx exNode (fmtX (Tx_Hash exNode u)) = Ok y)
             [exPlainTx] [Some exTransaction]"
    by (simp add: ex_Tx)
  have c: "map (lookupCall exNode) [exPlainTx] = [Call_Tx ''0B'']"
    by (simp add: lookupCall_def exNode_def exHash_def exPlainTx_def fmtX_def hexDigits_def)
  from Txs_routing[OF ex_RB[of 5 "[vpAlice, exPlainTx]"] ex_Txs, where cp = exNode]
    ex_HandleVPTxs_Alice l
  have "Txs exNode (Some (exResultBlock 5 [vpAlice, exPlainTx]))
     = (Ok [Some (exAliceTx 5 [vpAlice, exPlainTx]), Some exTransaction],
        Call_HandleVPTxs vpAlice # map (lookupCall exNode) [exPlainTx])"
    by blast
  then show ?thesis by (simp only: c)
qed

text \<open>
  C10. For a block whose list of transactions is empty \<open>Txs\<close> returns the empty list and
  no error, and calls neither \<open>HandleVPTxs\<close> nor \<open>Tx\<close>.
\<close>

theorem Txs_empty_block:
  assumes "RB_Block rb = Some b" and "Block_Txs b = []"
  shows "Txs cp (Some rb) = (Ok [], [])"
  using assms by (simp add: Txs_def)

theorem Txs_empty_block_witness:
  "Txs exNode (Some (exResultBlock 5 [])) = (Ok [], [])"
  using Txs_empty_block[OF ex_RB ex_Txs] .

text \<open>
  C4, as the code has it. When \<open>HandleVPTxs\<close> returns an error for the transaction at
  position 0, \<open>Txs\<close> returns that error and no list, and looks no other transaction of the
  block up.
\<close>

theorem Txs_presentation_failure_aborts:
  assumes "RB_Block rb = Some b" and "Block_Txs b = t # rest"
    and "HandleVPTxs cp (Some t) (Some rb) = Error err"
  shows "Txs cp (Some rb) = (Error err, [Call_HandleVPTxs t])"
  using assms by (simp add: Txs_def)

theorem Txs_presentation_failure_aborts_witness:
  "Txs exNode (Some (exResultBlock 5 [vpBad, exPlainTx]))
     = (Error (DecodeDisclosureError ''illegal base64 data''), [Call_HandleVPTxs vpBad])"
  using Txs_presentation_failure_aborts[OF ex_RB ex_Txs ex_HandleVPTxs_Bad] .

text \<open>
  C4, as stated, at a block of two transactions: the presentation at position 0 has a
  disclosure that is not base64url, the lookup of the transaction at position 1 would
  succeed, and \<open>Txs\<close> returns the error of position 0 without a result for position 1.
\<close>

theorem Txs_sibling_results_lost:
  "HandleVPTxs exNode (Some vpBad) (Some (exResultBlock 7 [vpBad, exPlainTx]))
     = Error (DecodeDisclosureError ''illegal base64 data'')
   \<and> Tx exNode (fmtX (Tx_Hash exNode exPlainTx)) = Ok (Some exTransaction)
   \<and> fst (Txs exNode (Some (exResultBlock 7 [vpBad, exPlainTx])))
     = Error (DecodeDisclosureError ''illegal base64 data'')
   \<and> snd (Txs exNode (Some (exResultBlock 7 [vpBad, exPlainTx]))) = [Call_HandleVPTxs vpBad]"
  by (simp add: Txs_def ex_RB ex_Txs ex_HandleVPTxs_Bad ex_Tx)

end
